theory Spec2Isabelle
  imports Main "HOL-Library.Word"
begin

section \<open>The verbs primitives the wrappers call\<close>

text \<open>
  The header \<^verbatim>\<open>adverbs.h\<close> wraps the libibverbs calls \<^verbatim>\<open>ibv_get_device_list\<close>,
  \<^verbatim>\<open>ibv_free_device_list\<close>, \<^verbatim>\<open>ibv_get_device_index\<close>, \<^verbatim>\<open>ibv_get_device_guid\<close>,
  \<^verbatim>\<open>ibv_open_device\<close>, \<^verbatim>\<open>ibv_close_device\<close>, \<^verbatim>\<open>ibv_query_device\<close> and
  \<^verbatim>\<open>ibv_query_port\<close>. They live in \<^verbatim>\<open>infiniband/verbs.h\<close>, outside the
  repository, so the answers they give are a parameter of the model: the record
  \<open>driver\<close>. Pointers are addresses (\<open>nat\<close>); a null pointer is \<open>None\<close>.
\<close>

type_synonym ibv_device_ptr = nat
type_synonym ibv_context_ptr = nat

datatype ibv_node_type =
  IBV_NODE_UNKNOWN | IBV_NODE_CA | IBV_NODE_SWITCH | IBV_NODE_ROUTER
| IBV_NODE_RNIC | IBV_NODE_USNIC | IBV_NODE_USNIC_UDP

text \<open>The fields of \<^verbatim>\<open>struct ibv_device\<close> that the repository reads.\<close>

record ibv_device =
  node_type :: ibv_node_type
  name :: string
  dev_name :: string
  dev_path :: string
  ibdev_path :: string

text \<open>
  \<^verbatim>\<open>struct ibv_device_attr\<close> and \<^verbatim>\<open>struct ibv_port_attr\<close>, cut down to the fields
  the wrappers and their tests read: \<^verbatim>\<open>uint64_t max_mr_size\<close>,
  \<^verbatim>\<open>uint8_t phys_port_cnt\<close>, \<^verbatim>\<open>uint16_t lid\<close>, \<^verbatim>\<open>uint8_t link_layer\<close>.
\<close>

record ibv_device_attr =
  max_mr_size :: "64 word"
  phys_port_cnt :: "8 word"

record ibv_port_attr =
  lid :: "16 word"
  link_layer :: "8 word"

text \<open>Constants of \<^verbatim>\<open>infiniband/verbs.h\<close>.\<close>

definition IBV_LINK_LAYER_INFINIBAND :: "8 word" where
  "IBV_LINK_LAYER_INFINIBAND = 1"

definition IBV_LINK_LAYER_ETHERNET :: "8 word" where
  "IBV_LINK_LAYER_ETHERNET = 2"

definition IBV_SYSFS_NAME_MAX :: nat where
  "IBV_SYSFS_NAME_MAX = 64"

text \<open>
  What the primitive layer answers. \<open>get_device_list\<close> is the array that
  \<^verbatim>\<open>ibv_get_device_list\<close> returns (\<open>None\<close>: it returned \<^verbatim>\<open>NULL\<close>); the count it
  stores through its argument is the length of that array. \<open>device_at\<close> is the memory
  behind a device pointer. \<open>resolve_device_index\<close> is \<open>None\<close> where the kernel cannot
  resolve an index. \<open>query_device\<close> and \<open>query_port\<close> give the return code (0 on
  success) and the struct written through the out-pointer.
\<close>

record driver =
  get_device_list :: "ibv_device_ptr list option"
  device_at :: "ibv_device_ptr \<Rightarrow> ibv_device"
  resolve_device_index :: "ibv_device_ptr \<Rightarrow> int option"
  get_device_guid :: "ibv_device_ptr \<Rightarrow> 64 word"
  open_device :: "ibv_device_ptr \<Rightarrow> ibv_context_ptr option"
  query_device :: "ibv_context_ptr \<Rightarrow> int \<times> ibv_device_attr"
  query_port :: "ibv_context_ptr \<Rightarrow> 8 word \<Rightarrow> int \<times> ibv_port_attr"

text \<open>
  The calls that acquire, release or query a resource are logged in the order they
  happen, so that a theorem can say which calls an operation makes.
\<close>

datatype call =
  Ibv_get_device_list
| Ibv_free_device_list "ibv_device_ptr list option"
| Ibv_open_device ibv_device_ptr
| Ibv_close_device "ibv_context_ptr option"
| Ibv_query_device ibv_context_ptr
| Ibv_query_port ibv_context_ptr "8 word"

section \<open>Shared pointers\<close>

text \<open>
  Modelled from the spec: \<^verbatim>\<open>std::shared_ptr\<close> is the C++ standard library's and not
  under the repository; the spec describes it as reference-counted shared ownership
  whose release runs when the last owner is destroyed. A control block holds the
  number of owners and the deleter call to make when that number reaches zero. A
  shared pointer built from a pointer and a deleter owns the pointer even when it is
  null, and its deleter runs on the null pointer as well.
\<close>

record ctrl =
  use_count :: nat
  deleter :: call

record world =
  calls :: "call list"
  blocks :: "nat \<rightharpoonup> ctrl"
  next_block :: nat

record 'p shared_ptr =
  stored :: "'p option"
  block :: nat

definition log_call :: "call \<Rightarrow> world \<Rightarrow> world" where
  "log_call c w = w\<lparr>calls := calls w @ [c]\<rparr>"

definition shared_ptr_new :: "'p option \<Rightarrow> call \<Rightarrow> world \<Rightarrow> 'p shared_ptr \<times> world" where
  "shared_ptr_new p del w =
     (\<lparr>stored = p, block = next_block w\<rparr>,
      w\<lparr>blocks := (blocks w)(next_block w \<mapsto> \<lparr>use_count = 1, deleter = del\<rparr>),
        next_block := Suc (next_block w)\<rparr>)"

text \<open>Copying or destroying a shared pointer whose control block is gone is undefined: \<open>None\<close>.\<close>

definition shared_ptr_copy :: "'p shared_ptr \<Rightarrow> world \<Rightarrow> ('p shared_ptr \<times> world) option" where
  "shared_ptr_copy sp w =
     (case blocks w (block sp) of
        None \<Rightarrow> None
      | Some cb \<Rightarrow> Some (sp, w\<lparr>blocks := (blocks w)(block sp \<mapsto> cb\<lparr>use_count := Suc (use_count cb)\<rparr>)\<rparr>))"

definition shared_ptr_destroy :: "'p shared_ptr \<Rightarrow> world \<Rightarrow> world option" where
  "shared_ptr_destroy sp w =
     (case blocks w (block sp) of
        None \<Rightarrow> None
      | Some cb \<Rightarrow>
          if use_count cb \<le> 1
          then Some (log_call (deleter cb) (w\<lparr>blocks := (blocks w)(block sp := None)\<rparr>))
          else Some (w\<lparr>blocks := (blocks w)(block sp \<mapsto> cb\<lparr>use_count := use_count cb - 1\<rparr>)\<rparr>))"

section \<open>Outcomes\<close>

text \<open>
  The three \<^verbatim>\<open>throw std::runtime_error(...)\<close> of the repository, one constructor
  each: \<^verbatim>\<open>"ibv_query_device failed"\<close>, \<^verbatim>\<open>"ibv_query_port failed"\<close> and
  \<^verbatim>\<open>"IBDeviceProxy with kernel index %d not found"\<close>. An operation returns, throws,
  or has undefined behaviour (a read through a null or out-of-range pointer).
\<close>

datatype error =
  Query_device_failed
| Query_port_failed
| Kernel_index_not_found int

datatype 'a outcome = Returns 'a | Throws error | Undefined

section \<open>\<^verbatim>\<open>context_handle\<close>\<close>

record context_handle =
  m_context :: "ibv_context_ptr shared_ptr"

text \<open>
  \<^verbatim>\<open>explicit context_handle(const struct ibv_device *device)
      : _context(ibv_open_device(device), ibv_close_device) {}\<close>
  The result of \<^verbatim>\<open>ibv_open_device\<close> is stored as it is; there is no test for null
  and no throw.
\<close>

definition context_handle_ctor ::
  "driver \<Rightarrow> ibv_device_ptr \<Rightarrow> world \<Rightarrow> context_handle outcome \<times> world" where
  "context_handle_ctor drv device w =
     (let p = open_device drv device;
          (sp, w') = shared_ptr_new p (Ibv_close_device p) (log_call (Ibv_open_device device) w)
      in (Returns \<lparr>m_context = sp\<rparr>, w'))"

definition context_get :: "context_handle \<Rightarrow> ibv_context_ptr option" where
  "context_get h = stored (m_context h)"

text \<open>
  \<^verbatim>\<open>query_device_attr\<close>: \<^verbatim>\<open>if (ibv_query_device(_context.get(), &attr)) throw ...\<close>.
  The primitive reads through the context pointer, so a null context is undefined.
\<close>

definition query_device_attr ::
  "driver \<Rightarrow> context_handle \<Rightarrow> world \<Rightarrow> ibv_device_attr outcome \<times> world" where
  "query_device_attr drv h w =
     (case context_get h of
        None \<Rightarrow> (Undefined, w)
      | Some c \<Rightarrow>
          (let (rc, attr) = query_device drv c;
               w' = log_call (Ibv_query_device c) w
           in if rc \<noteq> 0 then (Throws Query_device_failed, w') else (Returns attr, w')))"

text \<open>
  The loop of \<^verbatim>\<open>query_ports\<close>:
  \<^verbatim>\<open>for (int i = 0; i < attr.phys_port_cnt; ++i) {
      if (ibv_query_port(_context.get(), i + 1, &port_attr[i])) throw ...;
  }\<close>
  \<open>n\<close> is \<^verbatim>\<open>attr.phys_port_cnt\<close>; the port number \<^verbatim>\<open>i + 1\<close> is passed as a
  \<^verbatim>\<open>uint8_t\<close>.
\<close>

function query_ports_loop ::
  "driver \<Rightarrow> ibv_context_ptr \<Rightarrow> nat \<Rightarrow> nat \<Rightarrow> ibv_port_attr list \<Rightarrow> world
     \<Rightarrow> ibv_port_attr list outcome \<times> world" where
  "query_ports_loop drv c n i port_attr w =
     (if i < n then
        (let (rc, pa) = query_port drv c (of_nat (i + 1));
             w' = log_call (Ibv_query_port c (of_nat (i + 1))) w
         in if rc \<noteq> 0 then (Throws Query_port_failed, w')
            else query_ports_loop drv c n (i + 1) (port_attr[i := pa]) w')
      else (Returns port_attr, w))"
  by pat_completeness auto
termination
  by (relation "measure (\<lambda>(drv, c, n, i, port_attr, w). n - i)") auto

declare query_ports_loop.simps [simp del]

text \<open>
  \<^verbatim>\<open>query_ports()\<close>: the vector \<^verbatim>\<open>port_attr(attr.phys_port_cnt)\<close> starts as that many
  zeroed structs.
\<close>

definition query_ports ::
  "driver \<Rightarrow> context_handle \<Rightarrow> world \<Rightarrow> ibv_port_attr list outcome \<times> world" where
  "query_ports drv h w =
     (case query_device_attr drv h w of
        (Returns attr, w') \<Rightarrow>
          (case context_get h of
             None \<Rightarrow> (Undefined, w')
           | Some c \<Rightarrow>
               query_ports_loop drv c (unat (phys_port_cnt attr)) 0
                 (replicate (unat (phys_port_cnt attr)) \<lparr>lid = 0, link_layer = 0\<rparr>) w')
      | (Throws e, w') \<Rightarrow> (Throws e, w')
      | (Undefined, w') \<Rightarrow> (Undefined, w'))"

text \<open>
  \<^verbatim>\<open>std::remove_if\<close> and \<^verbatim>\<open>vector::erase\<close> belong to the C++ standard library, not
  to the repository; they are written out as the standard describes them.
  \<^verbatim>\<open>remove_if(first, last, pred)\<close> walks the range once, moves each element for which
  \<open>pred\<close> is false to the write position \<open>first\<close>, and returns the new logical end;
  \<^verbatim>\<open>erase(new_end, end)\<close> cuts the vector there.
\<close>

function remove_if_loop :: "('a \<Rightarrow> bool) \<Rightarrow> 'a list \<Rightarrow> nat \<Rightarrow> nat \<Rightarrow> 'a list \<times> nat" where
  "remove_if_loop pred v first i =
     (if i < length v then
        (if \<not> pred (v ! i) then remove_if_loop pred (v[first := v ! i]) (Suc first) (Suc i)
         else remove_if_loop pred v first (Suc i))
      else (v, first))"
  by pat_completeness auto
termination
  by (relation "measure (\<lambda>(pred, v, first, i). length v - i)") auto

declare remove_if_loop.simps [simp del]

definition erase_remove_if :: "('a \<Rightarrow> bool) \<Rightarrow> 'a list \<Rightarrow> 'a list" where
  "erase_remove_if pred v = (let (v', new_end) = remove_if_loop pred v 0 0 in take new_end v')"

text \<open>
  \<^verbatim>\<open>context_handle::query_ports(filter)\<close>:
  \<^verbatim>\<open>auto ports = query_ports();
  ports.erase(std::remove_if(ports.begin(), ports.end(), filter), ports.end());
  return ports;\<close>
  The predicate handed to \<^verbatim>\<open>remove_if\<close> is \<open>filter\<close> itself.
\<close>

definition query_ports_filter ::
  "driver \<Rightarrow> context_handle \<Rightarrow> (ibv_port_attr \<Rightarrow> bool) \<Rightarrow> world
     \<Rightarrow> ibv_port_attr list outcome \<times> world" where
  "query_ports_filter drv h filter_fn w =
     (case query_ports drv h w of
        (Returns ports, w') \<Rightarrow> (Returns (erase_remove_if filter_fn ports), w')
      | (Throws e, w') \<Rightarrow> (Throws e, w')
      | (Undefined, w') \<Rightarrow> (Undefined, w'))"

text \<open>
  The older class \<^verbatim>\<open>device_handle\<close> has the same member \<^verbatim>\<open>_context\<close>, the same
  \<^verbatim>\<open>query_device_attr\<close> and the same \<^verbatim>\<open>query_ports()\<close>, word for word; its
  filtered query hands \<^verbatim>\<open>remove_if\<close> the negated filter:
  \<^verbatim>\<open>[&filter](const auto &port) { return !filter(port); }\<close>.
\<close>

definition device_handle_query_ports_filter ::
  "driver \<Rightarrow> context_handle \<Rightarrow> (ibv_port_attr \<Rightarrow> bool) \<Rightarrow> world
     \<Rightarrow> ibv_port_attr list outcome \<times> world" where
  "device_handle_query_ports_filter drv h filter_fn w =
     (case query_ports drv h w of
        (Returns ports, w') \<Rightarrow> (Returns (erase_remove_if (\<lambda>port. \<not> filter_fn port) ports), w')
      | (Throws e, w') \<Rightarrow> (Throws e, w')
      | (Undefined, w') \<Rightarrow> (Undefined, w'))"

text \<open>The implicit copy constructor and destructor copy and destroy \<^verbatim>\<open>_context\<close>.\<close>

definition context_handle_copy ::
  "context_handle \<Rightarrow> world \<Rightarrow> (context_handle \<times> world) option" where
  "context_handle_copy h w =
     (case shared_ptr_copy (m_context h) w of
        None \<Rightarrow> None
      | Some (sp, w') \<Rightarrow> Some (\<lparr>m_context = sp\<rparr>, w'))"

definition context_handle_dtor :: "context_handle \<Rightarrow> world \<Rightarrow> world option" where
  "context_handle_dtor h w = shared_ptr_destroy (m_context h) w"

section \<open>\<^verbatim>\<open>scoped_device_list\<close>\<close>

record scoped_device_list =
  m_size :: int
  m_device_list :: "ibv_device_ptr list shared_ptr"

text \<open>
  \<^verbatim>\<open>scoped_device_list()
      : _device_list(ibv_get_device_list(&_size), ibv_free_device_list) {}\<close>
  with \<^verbatim>\<open>int _size = 0;\<close> declared before \<^verbatim>\<open>_device_list\<close>, so \<^verbatim>\<open>_size\<close> is 0 when the
  primitive is called; a primitive that returns \<^verbatim>\<open>NULL\<close> leaves the count at 0.
  There is no test for null and no throw.
\<close>

definition scoped_device_list_ctor :: "driver \<Rightarrow> world \<Rightarrow> scoped_device_list outcome \<times> world" where
  "scoped_device_list_ctor drv w =
     (let size0 = 0;
          arr = get_device_list drv;
          size1 = (case arr of None \<Rightarrow> size0 | Some ds \<Rightarrow> int (length ds));
          (sp, w') = shared_ptr_new arr (Ibv_free_device_list arr) (log_call Ibv_get_device_list w)
      in (Returns \<lparr>m_size = size1, m_device_list = sp\<rparr>, w'))"

definition list_get :: "scoped_device_list \<Rightarrow> ibv_device_ptr list option" where
  "list_get dl = stored (m_device_list dl)"

definition list_size :: "scoped_device_list \<Rightarrow> nat" where
  "list_size dl = nat (m_size dl)"

text \<open>
  The range \<^verbatim>\<open>[begin(), end())\<close>, that is \<^verbatim>\<open>[get(), get() + _size)\<close>: what a
  range-based \<^verbatim>\<open>for\<close> over the list visits. On a null array with \<^verbatim>\<open>_size\<close> 0 the two
  iterators are equal and nothing is visited.
\<close>

definition entries :: "scoped_device_list \<Rightarrow> ibv_device_ptr list" where
  "entries dl = (case list_get dl of None \<Rightarrow> [] | Some arr \<Rightarrow> take (list_size dl) arr)"

text \<open>
  \<^verbatim>\<open>operator[](size_t i)\<close> is \<^verbatim>\<open>*(_device_list.get()[i])\<close>, with no comparison of
  \<open>i\<close> to the size. The array ends with a null pointer, so an index at or past its
  length reads a null or foreign pointer and dereferences it.
\<close>

definition subscript :: "driver \<Rightarrow> scoped_device_list \<Rightarrow> nat \<Rightarrow> ibv_device outcome" where
  "subscript drv dl i =
     (case list_get dl of
        None \<Rightarrow> Undefined
      | Some arr \<Rightarrow> if i < length arr then Returns (device_at drv (arr ! i)) else Undefined)"

text \<open>
  \<^verbatim>\<open>lookup_by_predicate\<close>:
  \<^verbatim>\<open>for (const auto dev : *this) { if (predicate(dev)) return dev; }
  return nullptr;\<close>
\<close>

fun lookup_scan :: "(ibv_device_ptr \<Rightarrow> bool) \<Rightarrow> ibv_device_ptr list \<Rightarrow> ibv_device_ptr option" where
  "lookup_scan predicate [] = None"
| "lookup_scan predicate (dev # rest) =
     (if predicate dev then Some dev else lookup_scan predicate rest)"

definition lookup_by_predicate ::
  "scoped_device_list \<Rightarrow> (ibv_device_ptr \<Rightarrow> bool) \<Rightarrow> ibv_device_ptr option" where
  "lookup_by_predicate dl predicate = lookup_scan predicate (entries dl)"

text \<open>
  \<^verbatim>\<open>strncmp\<close> belongs to the C library, not to the repository; it is written out as
  the C standard describes it. It compares at most \<open>n\<close> characters and stops at the
  first difference or at a terminating zero; the end of the list stands for the
  terminator. The spec calls this the bounded-length comparison of names.
\<close>

fun strncmp :: "string \<Rightarrow> string \<Rightarrow> nat \<Rightarrow> int" where
  "strncmp s1 s2 0 = 0"
| "strncmp s1 s2 (Suc n) =
     (let c1 = (case s1 of [] \<Rightarrow> 0 | c # _ \<Rightarrow> of_char c);
          c2 = (case s2 of [] \<Rightarrow> 0 | c # _ \<Rightarrow> of_char c)
      in if c1 \<noteq> c2 then c1 - c2 else if c1 = 0 then 0 else strncmp (tl s1) (tl s2) n)"

text \<open>The characters of a C string: those before the first zero.\<close>

definition c_str :: "string \<Rightarrow> string" where
  "c_str s = takeWhile (\<lambda>c. c \<noteq> CHR 0x00) s"

text \<open>
  \<^verbatim>\<open>lookup_by_name(const char *name)\<close>: the predicate is
  \<^verbatim>\<open>strncmp(dev->name, name, IBV_SYSFS_NAME_MAX) == 0\<close>.
\<close>

definition lookup_by_name ::
  "driver \<Rightarrow> scoped_device_list \<Rightarrow> string \<Rightarrow> ibv_device_ptr option" where
  "lookup_by_name drv dl nm =
     lookup_by_predicate dl
       (\<lambda>dev. strncmp (name (device_at drv dev)) nm IBV_SYSFS_NAME_MAX = 0)"

text \<open>
  Modelled from the spec: \<^verbatim>\<open>ibv_get_device_index\<close> returns an \<^verbatim>\<open>int\<close>; the spec gives
  the primitive as \<^verbatim>\<open>resolve_stable_index(handle) -> integer | unsupported\<close>, and
  libibverbs reports "unsupported" as \<open>-1\<close>.
\<close>

definition ibv_get_device_index :: "driver \<Rightarrow> ibv_device_ptr \<Rightarrow> int" where
  "ibv_get_device_index drv dev =
     (case resolve_device_index drv dev of None \<Rightarrow> - 1 | Some k \<Rightarrow> k)"

text \<open>
  \<^verbatim>\<open>lookup_by_kernel_index(int kernel_index)\<close>: the predicate is
  \<^verbatim>\<open>ibv_get_device_index(dev) == kernel_index\<close>; \<^verbatim>\<open>lookup_by_guid\<close> compares
  \<^verbatim>\<open>ibv_get_device_guid(dev)\<close>.
\<close>

definition lookup_by_kernel_index ::
  "driver \<Rightarrow> scoped_device_list \<Rightarrow> int \<Rightarrow> ibv_device_ptr option" where
  "lookup_by_kernel_index drv dl kernel_index =
     lookup_by_predicate dl (\<lambda>dev. ibv_get_device_index drv dev = kernel_index)"

definition lookup_by_guid ::
  "driver \<Rightarrow> scoped_device_list \<Rightarrow> 64 word \<Rightarrow> ibv_device_ptr option" where
  "lookup_by_guid drv dl g = lookup_by_predicate dl (\<lambda>dev. get_device_guid drv dev = g)"

text \<open>The implicit copy constructor copies \<^verbatim>\<open>_size\<close> and \<^verbatim>\<open>_device_list\<close>.\<close>

definition scoped_device_list_copy ::
  "scoped_device_list \<Rightarrow> world \<Rightarrow> (scoped_device_list \<times> world) option" where
  "scoped_device_list_copy dl w =
     (case shared_ptr_copy (m_device_list dl) w of
        None \<Rightarrow> None
      | Some (sp, w') \<Rightarrow> Some (\<lparr>m_size = m_size dl, m_device_list = sp\<rparr>, w'))"

definition scoped_device_list_dtor :: "scoped_device_list \<Rightarrow> world \<Rightarrow> world option" where
  "scoped_device_list_dtor dl w = shared_ptr_destroy (m_device_list dl) w"

section \<open>\<^verbatim>\<open>IBDeviceProxy\<close>\<close>

text \<open>
  The proxy of the Python binding copies the identity of a device out of the list.
  Its string fields carry the prefix \<open>proxy_\<close> here, since \<^verbatim>\<open>struct ibv_device\<close>
  has fields of the same names.
\<close>

record IBDeviceProxy =
  kernel_index :: int
  guid :: "64 word"
  proxy_node_type :: ibv_node_type
  proxy_name :: string
  proxy_dev_name :: string
  proxy_dev_path :: string
  proxy_ibdev_path :: string

definition IBDeviceProxy_ctor :: "driver \<Rightarrow> ibv_device_ptr \<Rightarrow> IBDeviceProxy" where
  "IBDeviceProxy_ctor drv dev =
     \<lparr>kernel_index = ibv_get_device_index drv dev,
      guid = get_device_guid drv dev,
      proxy_node_type = node_type (device_at drv dev),
      proxy_name = name (device_at drv dev),
      proxy_dev_name = dev_name (device_at drv dev),
      proxy_dev_path = dev_path (device_at drv dev),
      proxy_ibdev_path = ibdev_path (device_at drv dev)\<rparr>"

text \<open>
  \<^verbatim>\<open>adverbs::context_handle open() const {
    adverbs::scoped_device_list device_list;
    auto* _dev = device_list.lookup_by_kernel_index(kernel_index);
    if (_dev == nullptr) throw std::runtime_error(format("... not found", kernel_index));
    return adverbs::context_handle(_dev);
  }\<close>
  The local \<^verbatim>\<open>device_list\<close> is destroyed when the function is left, by return or by
  throw, after the context has been opened.
\<close>

definition leave_scope ::
  "scoped_device_list \<Rightarrow> 'a outcome \<times> world \<Rightarrow> 'a outcome \<times> world" where
  "leave_scope device_list r =
     (case scoped_device_list_dtor device_list (snd r) of
        None \<Rightarrow> (Undefined, snd r)
      | Some w' \<Rightarrow> (fst r, w'))"

definition IBDeviceProxy_open ::
  "driver \<Rightarrow> IBDeviceProxy \<Rightarrow> world \<Rightarrow> context_handle outcome \<times> world" where
  "IBDeviceProxy_open drv p w =
     (case scoped_device_list_ctor drv w of
        (Returns device_list, w1) \<Rightarrow>
          (case lookup_by_kernel_index drv device_list (kernel_index p) of
             None \<Rightarrow>
               leave_scope device_list (Throws (Kernel_index_not_found (kernel_index p)), w1)
           | Some dev \<Rightarrow> leave_scope device_list (context_handle_ctor drv dev w1))
      | (Throws e, w1) \<Rightarrow> (Throws e, w1)
      | (Undefined, w1) \<Rightarrow> (Undefined, w1))"

section \<open>Programs over the owners of one resource\<close>

text \<open>
  A program holds some live copies of one handle and, step by step, copies one of
  them, destroys one of them, or queries through one of them; the copies are
  addressed by their position among the live ones. A step on a copy that is not
  there has no meaning: \<open>None\<close>. A thrown query is caught by the program.
\<close>

datatype handle_event =
  Copy_handle nat
| Destroy_handle nat
| Query_attr nat
| Query_all_ports nat
| Query_some_ports nat "ibv_port_attr \<Rightarrow> bool"

fun handle_step ::
  "driver \<Rightarrow> handle_event \<Rightarrow> context_handle list \<times> world
     \<Rightarrow> (context_handle list \<times> world) option" where
  "handle_step drv (Copy_handle i) (hs, w) =
     (if i < length hs then
        (case context_handle_copy (hs ! i) w of
           None \<Rightarrow> None
         | Some (h, w') \<Rightarrow> Some (hs @ [h], w'))
      else None)"
| "handle_step drv (Destroy_handle i) (hs, w) =
     (if i < length hs then
        (case context_handle_dtor (hs ! i) w of
           None \<Rightarrow> None
         | Some w' \<Rightarrow> Some (take i hs @ drop (Suc i) hs, w'))
      else None)"
| "handle_step drv (Query_attr i) (hs, w) =
     (if i < length hs then Some (hs, snd (query_device_attr drv (hs ! i) w)) else None)"
| "handle_step drv (Query_all_ports i) (hs, w) =
     (if i < length hs then Some (hs, snd (query_ports drv (hs ! i) w)) else None)"
| "handle_step drv (Query_some_ports i f) (hs, w) =
     (if i < length hs then Some (hs, snd (query_ports_filter drv (hs ! i) f w)) else None)"

fun handle_run ::
  "driver \<Rightarrow> handle_event list \<Rightarrow> context_handle list \<times> world
     \<Rightarrow> (context_handle list \<times> world) option" where
  "handle_run drv [] s = Some s"
| "handle_run drv (e # es) s =
     (case handle_step drv e s of None \<Rightarrow> None | Some s' \<Rightarrow> handle_run drv es s')"

fun is_close :: "call \<Rightarrow> bool" where
  "is_close (Ibv_close_device p) = True"
| "is_close c = False"

datatype list_event =
  Copy_list nat
| Destroy_list nat

fun list_step ::
  "list_event \<Rightarrow> scoped_device_list list \<times> world
     \<Rightarrow> (scoped_device_list list \<times> world) option" where
  "list_step (Copy_list i) (ds, w) =
     (if i < length ds then
        (case scoped_device_list_copy (ds ! i) w of
           None \<Rightarrow> None
         | Some (d, w') \<Rightarrow> Some (ds @ [d], w'))
      else None)"
| "list_step (Destroy_list i) (ds, w) =
     (if i < length ds then
        (case scoped_device_list_dtor (ds ! i) w of
           None \<Rightarrow> None
         | Some w' \<Rightarrow> Some (take i ds @ drop (Suc i) ds, w'))
      else None)"

fun list_run ::
  "list_event list \<Rightarrow> scoped_device_list list \<times> world
     \<Rightarrow> (scoped_device_list list \<times> world) option" where
  "list_run [] s = Some s"
| "list_run (e # es) s =
     (case list_step e s of None \<Rightarrow> None | Some s' \<Rightarrow> list_run es s')"

fun is_free :: "call \<Rightarrow> bool" where
  "is_free (Ibv_free_device_list p) = True"
| "is_free c = False"

section \<open>A host with two adapters\<close>

text \<open>
  The host of the spec's scenario: \<^verbatim>\<open>mlx5_0\<close> (kernel index 0, GUID 0xAA) and
  \<^verbatim>\<open>mlx5_1\<close> (kernel index 1, GUID 0xBB), each with two ports, port 1 on InfiniBand
  and port 2 on Ethernet.
\<close>

definition mlx5_0 :: ibv_device where
  "mlx5_0 = \<lparr>node_type = IBV_NODE_CA, name = ''mlx5_0'', dev_name = ''uverbs0'',
     dev_path = ''/sys/class/infiniband_verbs/uverbs0'',
     ibdev_path = ''/sys/class/infiniband/mlx5_0''\<rparr>"

definition mlx5_1 :: ibv_device where
  "mlx5_1 = \<lparr>node_type = IBV_NODE_CA, name = ''mlx5_1'', dev_name = ''uverbs1'',
     dev_path = ''/sys/class/infiniband_verbs/uverbs1'',
     ibdev_path = ''/sys/class/infiniband/mlx5_1''\<rparr>"

definition port_ib :: ibv_port_attr where
  "port_ib = \<lparr>lid = 1, link_layer = IBV_LINK_LAYER_INFINIBAND\<rparr>"

definition port_eth :: ibv_port_attr where
  "port_eth = \<lparr>lid = 0, link_layer = IBV_LINK_LAYER_ETHERNET\<rparr>"

definition two_adapters :: driver where
  "two_adapters =
     \<lparr>get_device_list = Some [10, 11],
      device_at = (\<lambda>p. if p = 10 then mlx5_0 else mlx5_1),
      resolve_device_index = (\<lambda>p. if p = 10 then Some 0 else Some 1),
      get_device_guid = (\<lambda>p. if p = 10 then 0xAA else 0xBB),
      open_device = (\<lambda>p. Some (100 + p)),
      query_device = (\<lambda>c. (0, \<lparr>max_mr_size = 4096, phys_port_cnt = 2\<rparr>)),
      query_port = (\<lambda>c p. (0, if p = 1 then port_ib else port_eth))\<rparr>"

definition empty_world :: world where
  "empty_world = \<lparr>calls = [], blocks = Map.empty, next_block = 0\<rparr>"

text \<open>A handle on context 110, the one \<open>two_adapters\<close> opens on \<^verbatim>\<open>mlx5_0\<close>.\<close>

definition handle_110 :: context_handle where
  "handle_110 = \<lparr>m_context = \<lparr>stored = Some 110, block = 0\<rparr>\<rparr>"

text \<open>The same host when one primitive reports an error.\<close>

definition port_2_fails :: driver where
  "port_2_fails = two_adapters\<lparr>query_port := (\<lambda>c p. (if p = 2 then 5 else 0, port_ib))\<rparr>"

definition open_fails :: driver where
  "open_fails = two_adapters\<lparr>open_device := (\<lambda>p. None)\<rparr>"

definition enumeration_fails :: driver where
  "enumeration_fails = two_adapters\<lparr>get_device_list := None\<rparr>"

definition index_unsupported :: driver where
  "index_unsupported = two_adapters\<lparr>resolve_device_index := (\<lambda>p. None)\<rparr>"

text \<open>The list that the constructor builds on \<open>two_adapters\<close> in the empty world.\<close>

definition list_of_two :: scoped_device_list where
  "list_of_two = \<lparr>m_size = 2, m_device_list = \<lparr>stored = Some [10, 11], block = 0\<rparr>\<rparr>"

text \<open>The descriptor captured from \<^verbatim>\<open>mlx5_1\<close>.\<close>

definition proxy_1 :: IBDeviceProxy where
  "proxy_1 = IBDeviceProxy_ctor two_adapters 11"


definition is_infiniband :: "ibv_port_attr \<Rightarrow> bool" where
  "is_infiniband port = (link_layer port = IBV_LINK_LAYER_INFINIBAND)"

section \<open>Port queries\<close>

lemma log_call_calls [simp]: "calls (log_call c w) = calls w @ [c]"
  by (simp add: log_call_def)

lemma query_ports_loop_ok:
  assumes "\<forall>k. i < k \<and> k \<le> n \<longrightarrow> fst (query_port drv c (of_nat k)) = 0"
    and "length port_attr = n"
  shows "query_ports_loop drv c n i port_attr w =
           (Returns (take i port_attr @ map (\<lambda>k. snd (query_port drv c (of_nat k))) [Suc i..<Suc n]),
            w\<lparr>calls := calls w @ map (\<lambda>k. Ibv_query_port c (of_nat k)) [Suc i..<Suc n]\<rparr>)"
  using assms
proof (induction drv c n i port_attr w rule: query_ports_loop.induct)
  case (1 drv c n i port_attr w)
  show ?case
  proof (cases "i < n")
    case False
    with "1.prems" show ?thesis
      by (simp add: query_ports_loop.simps [of drv c n i])
  next
    case True
    obtain rc pa where q: "query_port drv c (of_nat (i + 1)) = (rc, pa)"
      by (cases "query_port drv c (of_nat (i + 1))")
    from True "1.prems"(1) q have rc: "rc = 0"
      by (metis Suc_eq_plus1 Suc_leI fst_conv lessI)
    have later: "\<forall>k. i + 1 < k \<and> k \<le> n \<longrightarrow> fst (query_port drv c (of_nat k)) = 0"
      using "1.prems"(1) by auto
    have len: "length (port_attr[i := pa]) = n"
      using "1.prems"(2) by simp
    have ih: "query_ports_loop drv c n (i + 1) (port_attr[i := pa]) (log_call (Ibv_query_port c (of_nat (i + 1))) w) =
           (Returns (take (i + 1) (port_attr[i := pa]) @ map (\<lambda>k. snd (query_port drv c (of_nat k))) [Suc (i + 1)..<Suc n]),
            (log_call (Ibv_query_port c (of_nat (i + 1))) w)\<lparr>calls := calls (log_call (Ibv_query_port c (of_nat (i + 1))) w) @ map (\<lambda>k. Ibv_query_port c (of_nat k)) [Suc (i + 1)..<Suc n]\<rparr>)"
      using "1.IH" [OF True refl q [symmetric] refl _ later len] rc by simp
    have tk: "take (i + 1) (port_attr[i := pa]) = take i port_attr @ [pa]"
      using True "1.prems"(2) by (simp add: take_Suc_conv_app_nth)
    have up: "[Suc i..<Suc n] = Suc i # [Suc (i + 1)..<Suc n]"
      using True by (simp add: upt_conv_Cons)
    show ?thesis
      using True q rc ih tk up
      by (simp add: query_ports_loop.simps [of drv c n i] log_call_def)
  qed
qed

lemma query_ports_loop_fail:
  assumes "i < k" and "k \<le> n"
    and "fst (query_port drv c (of_nat k)) \<noteq> 0"
    and "\<forall>j. i < j \<and> j < k \<longrightarrow> fst (query_port drv c (of_nat j)) = 0"
  shows "query_ports_loop drv c n i port_attr w =
           (Throws Query_port_failed,
            w\<lparr>calls := calls w @ map (\<lambda>j. Ibv_query_port c (of_nat j)) [Suc i..<Suc k]\<rparr>)"
  using assms
proof (induction drv c n i port_attr w rule: query_ports_loop.induct)
  case (1 drv c n i port_attr w)
  from "1.prems" have lt: "i < n" by simp
  obtain rc pa where q: "query_port drv c (of_nat (i + 1)) = (rc, pa)"
    by (cases "query_port drv c (of_nat (i + 1))")
  show ?case
  proof (cases "k = i + 1")
    case True
    with "1.prems"(3) q have "rc \<noteq> 0" by simp
    with lt q True show ?thesis
      by (simp add: query_ports_loop.simps [of drv c n i] log_call_def)
  next
    case False
    with "1.prems" have k: "i + 1 < k" by simp
    with "1.prems"(4) q have rc: "rc = 0"
      by (metis Suc_eq_plus1 fst_conv lessI)
    have later: "\<forall>j. i + 1 < j \<and> j < k \<longrightarrow> fst (query_port drv c (of_nat j)) = 0"
      using "1.prems"(4) by auto
    have ih: "query_ports_loop drv c n (i + 1) (port_attr[i := pa]) (log_call (Ibv_query_port c (of_nat (i + 1))) w) =
           (Throws Query_port_failed,
            (log_call (Ibv_query_port c (of_nat (i + 1))) w)\<lparr>calls := calls (log_call (Ibv_query_port c (of_nat (i + 1))) w) @ map (\<lambda>j. Ibv_query_port c (of_nat j)) [Suc (i + 1)..<Suc k]\<rparr>)"
      using "1.IH" [OF lt refl q [symmetric] refl _ k "1.prems"(2) "1.prems"(3) later] rc by simp
    have up: "[Suc i..<Suc k] = Suc i # [Suc (i + 1)..<Suc k]"
      using k by (simp add: upt_conv_Cons)
    show ?thesis
      using lt q rc ih up
      by (simp add: query_ports_loop.simps [of drv c n i] log_call_def)
  qed
qed


lemma query_ports_returns:
  assumes "context_get h = Some c"
    and "query_device drv c = (0, attr)"
    and "\<forall>k. 0 < k \<and> k \<le> unat (phys_port_cnt attr) \<longrightarrow> fst (query_port drv c (of_nat k)) = 0"
  shows "query_ports drv h w =
           (Returns (map (\<lambda>k. snd (query_port drv c (of_nat k))) [1..<Suc (unat (phys_port_cnt attr))]),
            w\<lparr>calls := calls w @ Ibv_query_device c #
                 map (\<lambda>k. Ibv_query_port c (of_nat k)) [1..<Suc (unat (phys_port_cnt attr))]\<rparr>)"
  using assms
  by (simp add: query_ports_def query_device_attr_def query_ports_loop_ok log_call_def)

lemma query_ports_throws:
  assumes "context_get h = Some c"
    and "query_device drv c = (0, attr)"
    and "0 < k" and "k \<le> unat (phys_port_cnt attr)"
    and "fst (query_port drv c (of_nat k)) \<noteq> 0"
    and "\<forall>j. 0 < j \<and> j < k \<longrightarrow> fst (query_port drv c (of_nat j)) = 0"
  shows "query_ports drv h w =
           (Throws Query_port_failed,
            w\<lparr>calls := calls w @ Ibv_query_device c #
                 map (\<lambda>j. Ibv_query_port c (of_nat j)) [1..<Suc k]\<rparr>)"
  using assms
  by (simp add: query_ports_def query_device_attr_def
      query_ports_loop_fail [where k = k] log_call_def)

lemma query_device_attr_Returns:
  assumes "query_device_attr drv h w = (Returns attr, w1)"
  shows "\<exists>c. context_get h = Some c \<and> query_device drv c = (0, attr)"
  using assms
  by (auto simp: query_device_attr_def Let_def split: option.splits prod.splits if_splits)

text \<open>
  C2. On an open context whose device query answers \<open>attr\<close>, with
  \<open>n = phys_port_cnt attr\<close>: if the port queries 1 to \<open>n\<close> all succeed,
  \<open>query_ports\<close> returns \<open>n\<close> port attributes, the \<open>i\<close>-th being the answer for
  port \<open>i + 1\<close>, after one device query and one port query for each of the ports
  1, ..., \<open>n\<close> in ascending order; if port \<open>k\<close> is the first whose query reports an
  error, it throws the port-query error after the queries for ports 1, ..., \<open>k\<close>
  only, and returns no list.
\<close>

theorem query_ports_contract:
  assumes dev: "query_device_attr drv h w = (Returns attr, w1)"
    and ctx: "context_get h = Some c"
    and n: "n = unat (phys_port_cnt attr)"
  shows "((\<forall>k. 0 < k \<and> k \<le> n \<longrightarrow> fst (query_port drv c (of_nat k)) = 0) \<longrightarrow>
            (\<exists>ports w'. query_ports drv h w = (Returns ports, w') \<and>
               length ports = n \<and>
               (\<forall>i < n. ports ! i = snd (query_port drv c (of_nat (i + 1)))) \<and>
               calls w' = calls w @ Ibv_query_device c #
                 map (\<lambda>k. Ibv_query_port c (of_nat k)) [1..<Suc n])) \<and>
         (\<forall>k. 0 < k \<and> k \<le> n \<and> fst (query_port drv c (of_nat k)) \<noteq> 0 \<and>
               (\<forall>j. 0 < j \<and> j < k \<longrightarrow> fst (query_port drv c (of_nat j)) = 0) \<longrightarrow>
            (\<exists>w'. query_ports drv h w = (Throws Query_port_failed, w') \<and>
               calls w' = calls w @ Ibv_query_device c #
                 map (\<lambda>j. Ibv_query_port c (of_nat j)) [1..<Suc k]))"
proof -
  from dev ctx have q: "query_device drv c = (0, attr)"
    using query_device_attr_Returns by fastforce
  show ?thesis
  proof (intro conjI impI allI)
    assume ok: "\<forall>k. 0 < k \<and> k \<le> n \<longrightarrow> fst (query_port drv c (of_nat k)) = 0"
    let ?ports = "map (\<lambda>k. snd (query_port drv c (of_nat k))) [1..<Suc n]"
    have "query_ports drv h w =
            (Returns ?ports,
             w\<lparr>calls := calls w @ Ibv_query_device c #
                 map (\<lambda>k. Ibv_query_port c (of_nat k)) [1..<Suc n]\<rparr>)"
      using query_ports_returns [OF ctx q] ok n by simp
    moreover have "length ?ports = n" by simp
    moreover have "\<forall>i < n. ?ports ! i = snd (query_port drv c (of_nat (i + 1)))"
      by (simp add: nth_map_upt del: upt_Suc)
    ultimately show "\<exists>ports w'. query_ports drv h w = (Returns ports, w') \<and>
               length ports = n \<and>
               (\<forall>i < n. ports ! i = snd (query_port drv c (of_nat (i + 1)))) \<and>
               calls w' = calls w @ Ibv_query_device c #
                 map (\<lambda>k. Ibv_query_port c (of_nat k)) [1..<Suc n]"
      by simp
  next
    fix k
    assume bad: "0 < k \<and> k \<le> n \<and> fst (query_port drv c (of_nat k)) \<noteq> 0 \<and>
               (\<forall>j. 0 < j \<and> j < k \<longrightarrow> fst (query_port drv c (of_nat j)) = 0)"
    then have "query_ports drv h w =
           (Throws Query_port_failed,
            w\<lparr>calls := calls w @ Ibv_query_device c #
                 map (\<lambda>j. Ibv_query_port c (of_nat j)) [1..<Suc k]\<rparr>)"
      using query_ports_throws [OF ctx q, of k] n by simp
    then show "\<exists>w'. query_ports drv h w = (Throws Query_port_failed, w') \<and>
               calls w' = calls w @ Ibv_query_device c #
                 map (\<lambda>j. Ibv_query_port c (of_nat j)) [1..<Suc k]"
      by simp
  qed
qed

text \<open>The example host, field by field.\<close>

lemma two_adapters_sel [simp]:
  "get_device_list two_adapters = Some [10, 11]"
  "device_at two_adapters p = (if p = 10 then mlx5_0 else mlx5_1)"
  "resolve_device_index two_adapters p = (if p = 10 then Some 0 else Some 1)"
  "get_device_guid two_adapters p = (if p = 10 then 0xAA else 0xBB)"
  "open_device two_adapters p = Some (100 + p)"
  "query_device two_adapters c = (0, \<lparr>max_mr_size = 4096, phys_port_cnt = 2\<rparr>)"
  "query_port two_adapters c q = (0, if q = 1 then port_ib else port_eth)"
  by (simp_all add: two_adapters_def)

text \<open>
  On the two-port host both branches are met: all ports answer, or port 2 fails.
\<close>

theorem query_ports_contract_witness:
  "fst (query_ports two_adapters handle_110 empty_world) = Returns [port_ib, port_eth] \<and>
   calls (snd (query_ports two_adapters handle_110 empty_world)) =
     [Ibv_query_device 110, Ibv_query_port 110 1, Ibv_query_port 110 2] \<and>
   fst (query_ports port_2_fails handle_110 empty_world) = Throws Query_port_failed \<and>
   calls (snd (query_ports port_2_fails handle_110 empty_world)) =
     [Ibv_query_device 110, Ibv_query_port 110 1, Ibv_query_port 110 2]"
proof -
  let ?attr = "\<lparr>max_mr_size = 4096, phys_port_cnt = 2\<rparr>"
  have ctx: "context_get handle_110 = Some 110"
    by (simp add: context_get_def handle_110_def)
  have two: "unat (2 :: 8 word) = 2" by simp
  have dev: "query_device_attr two_adapters handle_110 empty_world =
       (Returns ?attr, log_call (Ibv_query_device 110) empty_world)"
    by (simp add: query_device_attr_def ctx)
  have dev': "query_device_attr port_2_fails handle_110 empty_world =
       (Returns ?attr, log_call (Ibv_query_device 110) empty_world)"
    by (simp add: query_device_attr_def ctx port_2_fails_def)
  have good: "\<forall>k. 0 < k \<and> k \<le> (2::nat) \<longrightarrow> fst (query_port two_adapters 110 (of_nat k)) = 0"
    by simp
  have one: "\<And>j::nat. 0 < j \<Longrightarrow> j < 2 \<Longrightarrow> j = 1" by arith
  have bad: "0 < (2::nat) \<and> (2::nat) \<le> 2 \<and> fst (query_port port_2_fails 110 (of_nat 2)) \<noteq> 0 \<and>
      (\<forall>j. 0 < j \<and> j < (2::nat) \<longrightarrow> fst (query_port port_2_fails 110 (of_nat j)) = 0)"
    by (auto simp: port_2_fails_def dest: one)
  have l: "[1..<Suc 2] = [1, 2]" by (simp add: upt_rec)
  from query_ports_contract [OF dev ctx, of 2] good two
  obtain ports w' where r: "query_ports two_adapters handle_110 empty_world = (Returns ports, w')"
    and len: "length ports = 2"
    and nth: "\<forall>i < 2. ports ! i = snd (query_port two_adapters 110 (of_nat (i + 1)))"
    and cs: "calls w' = calls empty_world @ Ibv_query_device 110 #
                 map (\<lambda>k. Ibv_query_port 110 (of_nat k)) [1..<Suc 2]"
    by auto
  from len nth have "ports = [port_ib, port_eth]"
    by (auto simp: list_eq_iff_nth_eq less_Suc_eq numeral_2_eq_2)
  moreover
  from query_ports_contract [OF dev' ctx, of 2] bad two
  obtain w'' where r': "query_ports port_2_fails handle_110 empty_world = (Throws Query_port_failed, w'')"
    and cs': "calls w'' = calls empty_world @ Ibv_query_device 110 #
                 map (\<lambda>j. Ibv_query_port 110 (of_nat j)) [1..<Suc 2]"
    by (simp only: ibv_device_attr.simps) blast
  ultimately show ?thesis
    using r cs r' cs' l by (simp add: empty_world_def)
qed

section \<open>Filtered port queries\<close>

text \<open>The erase-remove idiom keeps, in order, the elements the predicate rejects.\<close>

lemma remove_if_loop_take:
  assumes "first \<le> i"
  shows "(case remove_if_loop pred v first i of (v', new_end) \<Rightarrow> take new_end v') =
           take first v @ filter (\<lambda>x. \<not> pred x) (drop i v)"
  using assms
proof (induction pred v first i rule: remove_if_loop.induct)
  case (1 pred v first i)
  show ?case
  proof (cases "i < length v")
    case False
    then show ?thesis
      by (simp add: remove_if_loop.simps [of pred v first i])
  next
    case True
    note inside = True
    have dr: "drop i v = v ! i # drop (Suc i) v"
      using inside by (simp add: Cons_nth_drop_Suc)
    show ?thesis
    proof (cases "pred (v ! i)")
      case True
      have "first \<le> Suc i" using "1.prems" by simp
      from "1.IH"(2) [OF inside _ this] True
      show ?thesis
        using inside dr by (simp add: remove_if_loop.simps [of pred v first i])
    next
      case False
      have le: "Suc first \<le> Suc i" using "1.prems" by simp
      have tk: "take (Suc first) (v[first := v ! i]) = take first v @ [v ! i]"
        using inside "1.prems" by (simp add: take_Suc_conv_app_nth)
      have dp: "drop (Suc i) (v[first := v ! i]) = drop (Suc i) v"
        using "1.prems" by simp
      from "1.IH"(1) [OF inside False le] tk dp
      show ?thesis
        using inside dr False by (simp add: remove_if_loop.simps [of pred v first i])
    qed
  qed
qed

lemma erase_remove_if_filter: "erase_remove_if pred v = filter (\<lambda>x. \<not> pred x) v"
  using remove_if_loop_take [of 0 0 pred v] by (simp add: erase_remove_if_def)

lemma query_ports_filter_keeps_rejected:
  assumes "query_ports drv h w = (Returns ports, w')"
  shows "query_ports_filter drv h f w = (Returns (filter (\<lambda>port. \<not> f port) ports), w')"
  using assms by (simp add: query_ports_filter_def erase_remove_if_filter)

lemma device_handle_query_ports_filter_keeps_accepted:
  assumes "query_ports drv h w = (Returns ports, w')"
  shows "device_handle_query_ports_filter drv h f w = (Returns (filter f ports), w')"
  using assms by (simp add: device_handle_query_ports_filter_def erase_remove_if_filter)

lemma two_adapters_ports:
  "query_ports two_adapters handle_110 w =
     (Returns [port_ib, port_eth],
      w\<lparr>calls := calls w @ [Ibv_query_device 110, Ibv_query_port 110 1, Ibv_query_port 110 2]\<rparr>)"
proof -
  have ctx: "context_get handle_110 = Some 110"
    by (simp add: context_get_def handle_110_def)
  have l: "[1..<Suc 2] = [1, 2]" by (simp add: upt_rec)
  show ?thesis
    using query_ports_returns [OF ctx, of two_adapters "\<lparr>max_mr_size = 4096, phys_port_cnt = 2\<rparr>" w] l
    by simp
qed

text \<open>
  C1. The filtered query is to return the ports that satisfy the filter, in port
  order. On the two-port host, with the filter "the link layer is InfiniBand" (true
  of port 1 only), \<^verbatim>\<open>context_handle::query_ports(filter)\<close> returns port 2 alone, the
  port the filter rejects; \<^verbatim>\<open>device_handle::query_ports(filter)\<close>, which negates the
  filter before \<^verbatim>\<open>remove_if\<close>, returns port 1.
\<close>

theorem query_ports_filter_inverted:
  "fst (query_ports two_adapters handle_110 empty_world) = Returns [port_ib, port_eth] \<and>
   is_infiniband port_ib \<and> \<not> is_infiniband port_eth \<and>
   fst (query_ports_filter two_adapters handle_110 is_infiniband empty_world) = Returns [port_eth] \<and>
   fst (device_handle_query_ports_filter two_adapters handle_110 is_infiniband empty_world) = Returns [port_ib]"
  by (simp add: query_ports_filter_keeps_rejected [OF two_adapters_ports]
      device_handle_query_ports_filter_keeps_accepted [OF two_adapters_ports]
      two_adapters_ports is_infiniband_def port_ib_def port_eth_def
      IBV_LINK_LAYER_INFINIBAND_def IBV_LINK_LAYER_ETHERNET_def)

section \<open>Lookups in the device list\<close>

lemma of_char_zero: "(of_char c :: int) = 0 \<longleftrightarrow> c = CHR 0x00"
proof -
  have "(of_char (CHR 0x00) :: int) = 0" by simp
  then show ?thesis by (metis of_char_eq_iff)
qed

lemma strncmp_zero_iff:
  "strncmp s1 s2 n = 0 \<longleftrightarrow> take n (c_str s1) = take n (c_str s2)"
proof (induction n arbitrary: s1 s2)
  case 0
  show ?case by simp
next
  case (Suc n)
  show ?case
  proof (cases s1)
    case Nil
    then show ?thesis
      by (cases s2) (auto simp: c_str_def of_char_zero)
  next
    case (Cons a as)
    note s1 = Cons
    show ?thesis
    proof (cases s2)
      case Nil
      with s1 show ?thesis by (auto simp: c_str_def of_char_zero)
    next
      case (Cons b bs)
      with s1 Suc.IH [of as bs] show ?thesis
        by (auto simp: c_str_def of_char_zero Let_def)
    qed
  qed
qed

lemma lookup_scan_None: "lookup_scan P xs = None \<longleftrightarrow> (\<forall>x \<in> set xs. \<not> P x)"
  by (induction xs) auto

lemma lookup_scan_Some:
  "lookup_scan P xs = Some d \<longleftrightarrow>
     (\<exists>i < length xs. xs ! i = d \<and> P d \<and> (\<forall>j < i. \<not> P (xs ! j)))"
proof (induction xs)
  case Nil
  show ?case by simp
next
  case (Cons x xs)
  show ?case
  proof (cases "P x")
    case True
    have "(\<exists>i < length (x # xs). (x # xs) ! i = d \<and> P d \<and> (\<forall>j < i. \<not> P ((x # xs) ! j))) \<longleftrightarrow> x = d"
    proof
      assume "\<exists>i < length (x # xs). (x # xs) ! i = d \<and> P d \<and> (\<forall>j < i. \<not> P ((x # xs) ! j))"
      then obtain i where i: "i < length (x # xs)" "(x # xs) ! i = d"
        "\<forall>j < i. \<not> P ((x # xs) ! j)" by blast
      from i(3) True have "i = 0" by (cases i) auto
      with i(2) show "x = d" by simp
    next
      assume "x = d"
      with True show "\<exists>i < length (x # xs). (x # xs) ! i = d \<and> P d \<and> (\<forall>j < i. \<not> P ((x # xs) ! j))"
        by (intro exI [of _ 0]) simp
    qed
    with True show ?thesis by simp
  next
    case False
    have "(\<exists>i < length (x # xs). (x # xs) ! i = d \<and> P d \<and> (\<forall>j < i. \<not> P ((x # xs) ! j))) \<longleftrightarrow>
          (\<exists>i < length xs. xs ! i = d \<and> P d \<and> (\<forall>j < i. \<not> P (xs ! j)))"
    proof
      assume "\<exists>i < length (x # xs). (x # xs) ! i = d \<and> P d \<and> (\<forall>j < i. \<not> P ((x # xs) ! j))"
      then obtain i where i: "i < length (x # xs)" "(x # xs) ! i = d" "P d"
        "\<forall>j < i. \<not> P ((x # xs) ! j)" by blast
      from i(2,3) False obtain k where k: "i = Suc k" by (cases i) auto
      with i have "k < length xs" "xs ! k = d" by simp_all
      moreover from i(4) k have "\<forall>j < k. \<not> P (xs ! j)" by auto
      ultimately show "\<exists>i < length xs. xs ! i = d \<and> P d \<and> (\<forall>j < i. \<not> P (xs ! j))"
        using i(3) by blast
    next
      assume "\<exists>i < length xs. xs ! i = d \<and> P d \<and> (\<forall>j < i. \<not> P (xs ! j))"
      then obtain k where k: "k < length xs" "xs ! k = d" "P d" "\<forall>j < k. \<not> P (xs ! j)"
        by blast
      have "\<forall>j < Suc k. \<not> P ((x # xs) ! j)"
        using k(4) False by (auto simp: less_Suc_eq_0_disj)
      with k show "\<exists>i < length (x # xs). (x # xs) ! i = d \<and> P d \<and> (\<forall>j < i. \<not> P ((x # xs) ! j))"
        by (intro exI [of _ "Suc k"]) simp
    qed
    with False Cons.IH show ?thesis by simp
  qed
qed

lemma list_of_two_entries [simp]: "entries list_of_two = [10, 11]"
  by (simp add: entries_def list_get_def list_size_def list_of_two_def)

text \<open>
  C6. \<open>lookup_by_name\<close> scans the entries in enumeration order and compares names
  on their first \<open>IBV_SYSFS_NAME_MAX\<close> characters only. It returns the entry at the
  least position whose name agrees with the argument on those characters, and the
  null pointer exactly when no entry does; its result is a value, never a throw.
\<close>

theorem lookup_by_name_first_match:
  "(lookup_by_name drv dl nm = None \<longleftrightarrow>
      (\<forall>dev \<in> set (entries dl).
         take IBV_SYSFS_NAME_MAX (c_str (name (device_at drv dev))) \<noteq>
         take IBV_SYSFS_NAME_MAX (c_str nm))) \<and>
   (\<forall>d. lookup_by_name drv dl nm = Some d \<longleftrightarrow>
      (\<exists>i < length (entries dl). entries dl ! i = d \<and>
         take IBV_SYSFS_NAME_MAX (c_str (name (device_at drv d))) =
         take IBV_SYSFS_NAME_MAX (c_str nm) \<and>
         (\<forall>j < i. take IBV_SYSFS_NAME_MAX (c_str (name (device_at drv (entries dl ! j)))) \<noteq>
                   take IBV_SYSFS_NAME_MAX (c_str nm))))"
  by (simp add: lookup_by_name_def lookup_by_predicate_def lookup_scan_None lookup_scan_Some
      strncmp_zero_iff)

lemma c_str_plain [simp]: "c_str ''mlx5_0'' = ''mlx5_0''" "c_str ''mlx5_1'' = ''mlx5_1''"
  "c_str ''mlx5_2'' = ''mlx5_2''"
  by (simp_all add: c_str_def)

text \<open>On the two-adapter host: the second entry is found, an unknown name is not.\<close>

theorem lookup_by_name_first_match_witness:
  "lookup_by_name two_adapters list_of_two ''mlx5_1'' = Some 11 \<and>
   lookup_by_name two_adapters list_of_two ''mlx5_2'' = None"
proof -
  have miss: "\<forall>dev \<in> set (entries list_of_two).
         take IBV_SYSFS_NAME_MAX (c_str (name (device_at two_adapters dev))) \<noteq>
         take IBV_SYSFS_NAME_MAX (c_str ''mlx5_2'')"
    by (simp add: IBV_SYSFS_NAME_MAX_def mlx5_0_def mlx5_1_def)
  have hit: "\<exists>i < length (entries list_of_two). entries list_of_two ! i = 11 \<and>
         take IBV_SYSFS_NAME_MAX (c_str (name (device_at two_adapters 11))) =
         take IBV_SYSFS_NAME_MAX (c_str ''mlx5_1'') \<and>
         (\<forall>j < i. take IBV_SYSFS_NAME_MAX (c_str (name (device_at two_adapters (entries list_of_two ! j)))) \<noteq>
                   take IBV_SYSFS_NAME_MAX (c_str ''mlx5_1''))"
    by (intro exI [of _ 1]) (simp add: IBV_SYSFS_NAME_MAX_def mlx5_0_def mlx5_1_def)
  from lookup_by_name_first_match [of two_adapters list_of_two "''mlx5_2''"] miss
  have "lookup_by_name two_adapters list_of_two ''mlx5_2'' = None" by blast
  moreover
  from lookup_by_name_first_match [of two_adapters list_of_two "''mlx5_1''"] hit
  have "lookup_by_name two_adapters list_of_two ''mlx5_1'' = Some 11" by blast
  ultimately show ?thesis by simp
qed

text \<open>
  C7, as amended. \<open>lookup_by_kernel_index\<close> scans the entries in enumeration order,
  asks the driver for the index of each entry, and returns the entry at the least
  position whose index equals the argument, or the null pointer when there is none;
  it never throws. An entry whose index the driver cannot resolve reports \<open>-1\<close>, so
  it is returned for no argument other than \<open>-1\<close>.
\<close>

theorem lookup_by_kernel_index_first_match:
  "(lookup_by_kernel_index drv dl idx = None \<longleftrightarrow>
      (\<forall>dev \<in> set (entries dl). ibv_get_device_index drv dev \<noteq> idx)) \<and>
   (\<forall>d. lookup_by_kernel_index drv dl idx = Some d \<longleftrightarrow>
      (\<exists>i < length (entries dl). entries dl ! i = d \<and> ibv_get_device_index drv d = idx \<and>
         (\<forall>j < i. ibv_get_device_index drv (entries dl ! j) \<noteq> idx))) \<and>
   (\<forall>d. lookup_by_kernel_index drv dl idx = Some d \<and> resolve_device_index drv d = None
      \<longrightarrow> idx = - 1)"
  by (auto simp: lookup_by_kernel_index_def lookup_by_predicate_def lookup_scan_None
      lookup_scan_Some ibv_get_device_index_def)

text \<open>
  On the two-adapter host index 1 finds the second entry and index 99999 nothing;
  where no index can be resolved, index 1 finds nothing.
\<close>

theorem lookup_by_kernel_index_first_match_witness:
  "lookup_by_kernel_index two_adapters list_of_two 1 = Some 11 \<and>
   lookup_by_kernel_index two_adapters list_of_two 99999 = None \<and>
   lookup_by_kernel_index index_unsupported list_of_two 1 = None"
proof -
  have miss: "\<forall>dev \<in> set (entries list_of_two). ibv_get_device_index two_adapters dev \<noteq> 99999"
    by (simp add: ibv_get_device_index_def)
  have miss': "\<forall>dev \<in> set (entries list_of_two). ibv_get_device_index index_unsupported dev \<noteq> 1"
    by (simp add: ibv_get_device_index_def index_unsupported_def)
  have hit: "\<exists>i < length (entries list_of_two). entries list_of_two ! i = 11 \<and>
         ibv_get_device_index two_adapters 11 = 1 \<and>
         (\<forall>j < i. ibv_get_device_index two_adapters (entries list_of_two ! j) \<noteq> 1)"
    by (intro exI [of _ 1]) (simp add: ibv_get_device_index_def)
  from lookup_by_kernel_index_first_match [of two_adapters list_of_two 99999] miss
  have "lookup_by_kernel_index two_adapters list_of_two 99999 = None" by blast
  moreover
  from lookup_by_kernel_index_first_match [of index_unsupported list_of_two 1] miss'
  have "lookup_by_kernel_index index_unsupported list_of_two 1 = None" by blast
  moreover
  from lookup_by_kernel_index_first_match [of two_adapters list_of_two 1] hit
  have "lookup_by_kernel_index two_adapters list_of_two 1 = Some 11" by blast
  ultimately show ?thesis by simp
qed

text \<open>
  C7 as stated fails for the argument \<open>-1\<close>: where no index can be resolved, the
  lookup of \<open>-1\<close> returns the first entry, an entry without a resolvable index.
\<close>

theorem lookup_by_kernel_index_unsupported_counterexample:
  "fst (scoped_device_list_ctor index_unsupported empty_world) = Returns list_of_two \<and>
   resolve_device_index index_unsupported 10 = None \<and>
   lookup_by_kernel_index index_unsupported list_of_two (- 1) = Some 10"
  by (simp add: lookup_by_kernel_index_def lookup_by_predicate_def ibv_get_device_index_def
      index_unsupported_def scoped_device_list_ctor_def shared_ptr_new_def log_call_def
      list_of_two_def empty_world_def entries_def list_get_def list_size_def Let_def)

section \<open>Reopening a retained descriptor\<close>

text \<open>What the two constructors return and do to the world.\<close>

lemma scoped_device_list_ctor_eq:
  "scoped_device_list_ctor drv w =
     (Returns \<lparr>m_size = (case get_device_list drv of None \<Rightarrow> 0 | Some ds \<Rightarrow> int (length ds)),
               m_device_list = \<lparr>stored = get_device_list drv, block = next_block w\<rparr>\<rparr>,
      w\<lparr>calls := calls w @ [Ibv_get_device_list],
        blocks := (blocks w)(next_block w \<mapsto>
          \<lparr>use_count = 1, deleter = Ibv_free_device_list (get_device_list drv)\<rparr>),
        next_block := Suc (next_block w)\<rparr>)"
  by (simp add: scoped_device_list_ctor_def shared_ptr_new_def log_call_def Let_def)

lemma context_handle_ctor_eq:
  "context_handle_ctor drv dev w =
     (Returns \<lparr>m_context = \<lparr>stored = open_device drv dev, block = next_block w\<rparr>\<rparr>,
      w\<lparr>calls := calls w @ [Ibv_open_device dev],
        blocks := (blocks w)(next_block w \<mapsto>
          \<lparr>use_count = 1, deleter = Ibv_close_device (open_device drv dev)\<rparr>),
        next_block := Suc (next_block w)\<rparr>)"
  by (simp add: context_handle_ctor_def shared_ptr_new_def log_call_def Let_def)

text \<open>
  What \<open>IBDeviceProxy::open\<close> does, with "has the index" read as the code reads
  it, through \<open>ibv_get_device_index\<close>: an entry whose index cannot be resolved
  counts as having index \<open>-1\<close>. It builds a new device list (one call of
  \<^verbatim>\<open>ibv_get_device_list\<close>) and looks the proxy's kernel index up in it. If no entry
  reports that index, it throws the not-found error and opens nothing; if the
  lookup finds an entry, it returns a context opened on that entry. Either way the
  list is freed on leaving, after the open.
\<close>

lemma IBDeviceProxy_open_behaviour:
  assumes "scoped_device_list_ctor drv w = (Returns device_list, w1)"
  shows "((\<forall>dev \<in> set (entries device_list). ibv_get_device_index drv dev \<noteq> kernel_index p) \<longrightarrow>
            fst (IBDeviceProxy_open drv p w) = Throws (Kernel_index_not_found (kernel_index p)) \<and>
            calls (snd (IBDeviceProxy_open drv p w)) =
              calls w @ [Ibv_get_device_list, Ibv_free_device_list (list_get device_list)]) \<and>
         (\<forall>dev. lookup_by_kernel_index drv device_list (kernel_index p) = Some dev \<longrightarrow>
            (\<exists>h. fst (IBDeviceProxy_open drv p w) = Returns h \<and>
                 context_get h = open_device drv dev) \<and>
            calls (snd (IBDeviceProxy_open drv p w)) =
              calls w @ [Ibv_get_device_list, Ibv_open_device dev,
                         Ibv_free_device_list (list_get device_list)])"
proof (intro conjI impI allI)
  assume "\<forall>dev \<in> set (entries device_list). ibv_get_device_index drv dev \<noteq> kernel_index p"
  then have none: "lookup_by_kernel_index drv device_list (kernel_index p) = None"
    by (simp add: lookup_by_kernel_index_def lookup_by_predicate_def lookup_scan_None)
  from assms none
  show "fst (IBDeviceProxy_open drv p w) = Throws (Kernel_index_not_found (kernel_index p))"
    by (auto simp: IBDeviceProxy_open_def scoped_device_list_ctor_eq leave_scope_def
        scoped_device_list_dtor_def shared_ptr_destroy_def log_call_def)
  from assms none
  show "calls (snd (IBDeviceProxy_open drv p w)) =
              calls w @ [Ibv_get_device_list, Ibv_free_device_list (list_get device_list)]"
    by (auto simp: IBDeviceProxy_open_def scoped_device_list_ctor_eq leave_scope_def
        scoped_device_list_dtor_def shared_ptr_destroy_def log_call_def list_get_def)
next
  fix dev
  assume some: "lookup_by_kernel_index drv device_list (kernel_index p) = Some dev"
  from assms some
  show "\<exists>h. fst (IBDeviceProxy_open drv p w) = Returns h \<and> context_get h = open_device drv dev"
    by (auto simp: IBDeviceProxy_open_def scoped_device_list_ctor_eq leave_scope_def
        scoped_device_list_dtor_def shared_ptr_destroy_def log_call_def context_handle_ctor_eq
        context_get_def)
  from assms some
  show "calls (snd (IBDeviceProxy_open drv p w)) =
              calls w @ [Ibv_get_device_list, Ibv_open_device dev,
                         Ibv_free_device_list (list_get device_list)]"
    by (auto simp: IBDeviceProxy_open_def scoped_device_list_ctor_eq leave_scope_def
        scoped_device_list_dtor_def shared_ptr_destroy_def log_call_def context_handle_ctor_eq
        list_get_def)
qed

text \<open>
  The proxy of \<^verbatim>\<open>mlx5_1\<close> reopens on the two-adapter host; with a kernel index that
  no adapter has, it fails.
\<close>

lemma IBDeviceProxy_open_two_adapters:
  "kernel_index proxy_1 = 1 \<and>
   (case fst (IBDeviceProxy_open two_adapters proxy_1 empty_world) of
      Returns h \<Rightarrow> context_get h = Some 111 | Throws e \<Rightarrow> False | Undefined \<Rightarrow> False) \<and>
   calls (snd (IBDeviceProxy_open two_adapters proxy_1 empty_world)) =
     [Ibv_get_device_list, Ibv_open_device 11, Ibv_free_device_list (Some [10, 11])] \<and>
   fst (IBDeviceProxy_open two_adapters (proxy_1\<lparr>kernel_index := 7\<rparr>) empty_world) =
     Throws (Kernel_index_not_found 7) \<and>
   calls (snd (IBDeviceProxy_open two_adapters (proxy_1\<lparr>kernel_index := 7\<rparr>) empty_world)) =
     [Ibv_get_device_list, Ibv_free_device_list (Some [10, 11])]"
proof -
  obtain w1 where ctor: "scoped_device_list_ctor two_adapters empty_world = (Returns list_of_two, w1)"
    by (simp add: scoped_device_list_ctor_eq list_of_two_def empty_world_def)
  have k: "kernel_index proxy_1 = 1"
    by (simp add: proxy_1_def IBDeviceProxy_ctor_def ibv_get_device_index_def)
  have g: "list_get list_of_two = Some [10, 11]"
    by (simp add: list_get_def list_of_two_def)
  have hit: "lookup_by_kernel_index two_adapters list_of_two (kernel_index proxy_1) = Some 11"
    by (simp add: k lookup_by_kernel_index_def lookup_by_predicate_def ibv_get_device_index_def)
  have miss: "\<forall>dev \<in> set (entries list_of_two).
       ibv_get_device_index two_adapters dev \<noteq> kernel_index (proxy_1\<lparr>kernel_index := 7\<rparr>)"
    by (simp add: ibv_get_device_index_def)
  from IBDeviceProxy_open_behaviour [OF ctor, of proxy_1] hit
  obtain h where h: "fst (IBDeviceProxy_open two_adapters proxy_1 empty_world) = Returns h"
    and cg: "context_get h = open_device two_adapters 11"
    and c: "calls (snd (IBDeviceProxy_open two_adapters proxy_1 empty_world)) =
              calls empty_world @ [Ibv_get_device_list, Ibv_open_device 11,
                         Ibv_free_device_list (list_get list_of_two)]"
    by blast
  from IBDeviceProxy_open_behaviour [OF ctor, of "proxy_1\<lparr>kernel_index := 7\<rparr>"] miss
  have "fst (IBDeviceProxy_open two_adapters (proxy_1\<lparr>kernel_index := 7\<rparr>) empty_world) =
     Throws (Kernel_index_not_found 7) \<and>
     calls (snd (IBDeviceProxy_open two_adapters (proxy_1\<lparr>kernel_index := 7\<rparr>) empty_world)) =
       calls empty_world @ [Ibv_get_device_list, Ibv_free_device_list (list_get list_of_two)]"
    by simp
  with k h cg c g show ?thesis by (simp add: empty_world_def)
qed


section \<open>Failures of the primitives and unchecked access\<close>

text \<open>
  C3, as amended. Opening never fails: for every device pointer the constructor
  calls the open primitive once and returns a handle that holds whatever the
  primitive returned, a null pointer included; no open error is raised.
\<close>

theorem context_handle_ctor_never_fails:
  "\<exists>h w'. context_handle_ctor drv dev w = (Returns h, w') \<and>
      context_get h = open_device drv dev \<and>
      calls w' = calls w @ [Ibv_open_device dev]"
  by (simp add: context_handle_ctor_eq context_get_def)

text \<open>
  C3 as stated fails: where the open primitive reports an error, the constructor
  returns a handle whose context is null.
\<close>

theorem open_failure_counterexample:
  "open_device open_fails 10 = None \<and>
   fst (context_handle_ctor open_fails 10 empty_world) =
     Returns \<lparr>m_context = \<lparr>stored = None, block = 0\<rparr>\<rparr>"
  by (simp add: context_handle_ctor_eq open_fails_def empty_world_def)

text \<open>
  C4, as amended. When the enumeration primitive reports an error, the constructor
  still returns: the list has size 0, iteration visits nothing, every lookup
  misses, and \<open>get()\<close> is the null pointer. No enumeration error is raised.
\<close>

theorem enumeration_failure_leaves_empty_list:
  assumes "get_device_list drv = None"
  shows "\<exists>dl w'. scoped_device_list_ctor drv w = (Returns dl, w') \<and>
      list_size dl = 0 \<and> entries dl = [] \<and> list_get dl = None \<and>
      lookup_by_predicate dl predicate = None"
  using assms
  by (simp add: scoped_device_list_ctor_eq list_size_def entries_def list_get_def
      lookup_by_predicate_def)

text \<open>The host whose enumeration fails.\<close>

theorem enumeration_failure_leaves_empty_list_witness:
  "get_device_list enumeration_fails = None \<and>
   (\<exists>dl w'. scoped_device_list_ctor enumeration_fails empty_world = (Returns dl, w') \<and>
      list_size dl = 0 \<and> entries dl = [] \<and> list_get dl = None \<and>
      lookup_by_predicate dl (\<lambda>dev. True) = None)"
proof -
  have f: "get_device_list enumeration_fails = None"
    by (simp add: enumeration_fails_def)
  from enumeration_failure_leaves_empty_list [OF f, of empty_world "\<lambda>dev. True"] f
  show ?thesis by simp
qed

text \<open>
  C4 as stated fails: on a failed enumeration the constructor returns a list, not an
  error.
\<close>

theorem enumeration_failure_counterexample:
  "get_device_list enumeration_fails = None \<and>
   fst (scoped_device_list_ctor enumeration_fails empty_world) =
     Returns \<lparr>m_size = 0, m_device_list = \<lparr>stored = None, block = 0\<rparr>\<rparr>"
  by (simp add: scoped_device_list_ctor_eq enumeration_fails_def empty_world_def)

text \<open>
  C5, as amended. On a constructed list, \<open>operator[]\<close> at \<open>i < size()\<close> returns
  the device behind entry \<open>i\<close>. The index is not checked: at \<open>i \<ge> size()\<close> the access
  leaves the array, its behaviour is undefined, and no error is ever thrown.
\<close>

theorem subscript_unchecked:
  assumes "scoped_device_list_ctor drv w = (Returns dl, w')"
  shows "(i < list_size dl \<longrightarrow> subscript drv dl i = Returns (device_at drv (entries dl ! i))) \<and>
         (list_size dl \<le> i \<longrightarrow> subscript drv dl i = Undefined) \<and>
         (\<forall>e. subscript drv dl i \<noteq> Throws e)"
  using assms
  by (auto simp: scoped_device_list_ctor_eq subscript_def list_size_def entries_def list_get_def
      split: option.splits)

text \<open>On the list of two: index 1 is the second adapter, index 5 is outside.\<close>

theorem subscript_unchecked_witness:
  "list_size list_of_two = 2 \<and>
   subscript two_adapters list_of_two 1 = Returns mlx5_1 \<and>
   subscript two_adapters list_of_two 5 = Undefined"
proof -
  obtain w1 where ctor: "scoped_device_list_ctor two_adapters empty_world = (Returns list_of_two, w1)"
    by (simp add: scoped_device_list_ctor_eq list_of_two_def empty_world_def)
  have sz: "list_size list_of_two = 2"
    by (simp add: list_size_def list_of_two_def)
  from subscript_unchecked [OF ctor, of 1] sz
  have "subscript two_adapters list_of_two 1 = Returns mlx5_1" by simp
  moreover
  from subscript_unchecked [OF ctor, of 5] sz
  have "subscript two_adapters list_of_two 5 = Undefined" by simp
  ultimately show ?thesis using sz by simp
qed

text \<open>
  C5 as stated fails: at \<open>i = size()\<close> the access is undefined instead of an
  out-of-range error.
\<close>

theorem subscript_out_of_range_counterexample:
  "fst (scoped_device_list_ctor two_adapters empty_world) = Returns list_of_two \<and>
   list_size list_of_two = 2 \<and>
   subscript two_adapters list_of_two 2 = Undefined"
  by (simp add: scoped_device_list_ctor_eq list_of_two_def empty_world_def list_size_def
      subscript_def list_get_def)

section \<open>Shared ownership of an open context\<close>

text \<open>Copying and destroying a shared pointer whose control block is live.\<close>

lemma shared_ptr_copy_live:
  assumes "blocks w (block sp) = Some cb"
  shows "shared_ptr_copy sp w =
           Some (sp, w\<lparr>blocks := (blocks w)(block sp \<mapsto> cb\<lparr>use_count := Suc (use_count cb)\<rparr>)\<rparr>)"
  using assms by (simp add: shared_ptr_copy_def)

lemma shared_ptr_destroy_last:
  assumes "blocks w (block sp) = Some cb" and "use_count cb \<le> 1"
  shows "shared_ptr_destroy sp w =
           Some (w\<lparr>calls := calls w @ [deleter cb], blocks := (blocks w)(block sp := None)\<rparr>)"
  using assms by (simp add: shared_ptr_destroy_def log_call_def)

lemma shared_ptr_destroy_shared:
  assumes "blocks w (block sp) = Some cb" and "1 < use_count cb"
  shows "shared_ptr_destroy sp w =
           Some (w\<lparr>blocks := (blocks w)(block sp \<mapsto> cb\<lparr>use_count := use_count cb - 1\<rparr>)\<rparr>)"
  using assms by (simp add: shared_ptr_destroy_def)

text \<open>The queries leave the control blocks alone and call no close.\<close>

lemma query_ports_loop_quiet:
  "blocks (snd (query_ports_loop drv c n i pa w)) = blocks w \<and>
   filter is_close (calls (snd (query_ports_loop drv c n i pa w))) = filter is_close (calls w)"
proof (induction drv c n i pa w rule: query_ports_loop.induct)
  case (1 drv c n i port_attr w)
  show ?case
  proof (cases "i < n")
    case False
    then show ?thesis by (simp add: query_ports_loop.simps [of drv c n i])
  next
    case True
    obtain rc pa where q: "query_port drv c (of_nat (i + 1)) = (rc, pa)"
      by (cases "query_port drv c (of_nat (i + 1))")
    show ?thesis
    proof (cases "rc = 0")
      case False
      with True q show ?thesis
        by (simp add: query_ports_loop.simps [of drv c n i] log_call_def)
    next
      case rc: True
      from "1.IH" [OF True refl q [symmetric] refl] rc
      show ?thesis
        using True q by (simp add: query_ports_loop.simps [of drv c n i] log_call_def)
    qed
  qed
qed

lemma query_device_attr_quiet:
  "blocks (snd (query_device_attr drv h w)) = blocks w \<and>
   filter is_close (calls (snd (query_device_attr drv h w))) = filter is_close (calls w)"
  by (simp add: query_device_attr_def log_call_def Let_def split: option.splits prod.splits)

lemma query_ports_quiet:
  "blocks (snd (query_ports drv h w)) = blocks w \<and>
   filter is_close (calls (snd (query_ports drv h w))) = filter is_close (calls w)"
proof (cases "query_device_attr drv h w")
  case (Pair r w1)
  with query_device_attr_quiet [of drv h w]
  have w1: "blocks w1 = blocks w" "filter is_close (calls w1) = filter is_close (calls w)"
    by simp_all
  show ?thesis
  proof (cases r)
    case (Returns attr)
    with Pair w1 show ?thesis
      using query_ports_loop_quiet
      by (simp add: query_ports_def split: option.splits)
  next
    case (Throws e)
    with Pair w1 show ?thesis by (simp add: query_ports_def)
  next
    case Undefined
    with Pair w1 show ?thesis by (simp add: query_ports_def)
  qed
qed

lemma query_ports_filter_quiet:
  "blocks (snd (query_ports_filter drv h f w)) = blocks w \<and>
   filter is_close (calls (snd (query_ports_filter drv h f w))) = filter is_close (calls w)"
  using query_ports_quiet [of drv h w]
  by (cases "query_ports drv h w") (auto simp: query_ports_filter_def split: outcome.splits)

text \<open>One step of a program over the copies of \<open>h0\<close>.\<close>

lemma handle_step_owners:
  assumes step: "handle_step drv e (hs, w) = Some (hs', w')"
    and same: "\<forall>h \<in> set hs. h = h0"
    and live: "blocks w (block (m_context h0)) = Some \<lparr>use_count = length hs, deleter = d\<rparr>"
  shows "(\<forall>h \<in> set hs'. h = h0) \<and>
         (hs' \<noteq> [] \<longrightarrow>
            blocks w' (block (m_context h0)) = Some \<lparr>use_count = length hs', deleter = d\<rparr> \<and>
            filter is_close (calls w') = filter is_close (calls w)) \<and>
         (hs' = [] \<longrightarrow> calls w' = calls w @ [d])"
proof (cases e)
  case (Copy_handle i)
  with step have i: "i < length hs" by (simp split: if_splits)
  with same have hi: "hs ! i = h0" by simp
  have eta: "\<lparr>m_context = m_context h0\<rparr> = h0" by (cases h0) simp
  from step Copy_handle i hi live same eta show ?thesis
    by (auto simp: context_handle_copy_def shared_ptr_copy_live)
next
  case (Destroy_handle i)
  with step have i: "i < length hs" by (simp split: if_splits)
  with same have hi: "hs ! i = h0" by simp
  have sub: "\<forall>h \<in> set (take i hs @ drop (Suc i) hs). h = h0"
    using same by (auto dest: in_set_takeD in_set_dropD)
  have len: "length (take i hs @ drop (Suc i) hs) = length hs - 1"
    using i by simp
  show ?thesis
  proof (cases "length hs \<le> 1")
    case True
    with i have one: "length hs = 1" "i = 0" by simp_all
    then have "take i hs @ drop (Suc i) hs = []" by simp
    with step Destroy_handle i hi live True show ?thesis
      by (auto simp: context_handle_dtor_def shared_ptr_destroy_last)
  next
    case False
    then have many: "1 < length hs" by simp
    then have ne: "take i hs @ drop (Suc i) hs \<noteq> []"
      using len by (metis length_0_conv zero_less_diff less_numeral_extra(3))
    from step Destroy_handle i hi live many sub ne len show ?thesis
      by (auto simp: context_handle_dtor_def shared_ptr_destroy_shared)
  qed
next
  case (Query_attr i)
  with step same live query_device_attr_quiet [of drv "hs ! i" w] show ?thesis
    by (auto split: if_splits)
next
  case (Query_all_ports i)
  with step same live query_ports_quiet [of drv "hs ! i" w] show ?thesis
    by (auto split: if_splits)
next
  case (Query_some_ports i f)
  with step same live query_ports_filter_quiet [of drv "hs ! i" f w] show ?thesis
    by (auto split: if_splits)
qed

lemma handle_step_no_owner: "handle_step drv e ([], w) = None"
  by (cases e) simp_all

lemma handle_run_owners:
  assumes "handle_run drv evs (hs, w) = Some (hs', w')"
    and "\<forall>h \<in> set hs. h = h0"
    and "hs \<noteq> []"
    and "blocks w (block (m_context h0)) = Some \<lparr>use_count = length hs, deleter = d\<rparr>"
    and "is_close d"
  shows "(\<forall>h \<in> set hs'. h = h0) \<and>
         filter is_close (calls w') =
           filter is_close (calls w) @ (if hs' = [] then [d] else [])"
  using assms
proof (induction evs arbitrary: hs w)
  case Nil
  then show ?case by simp
next
  case (Cons e evs)
  from Cons.prems(1) obtain hs1 w1 where
    step: "handle_step drv e (hs, w) = Some (hs1, w1)"
    and rest: "handle_run drv evs (hs1, w1) = Some (hs', w')"
    by (auto split: option.splits)
  note inv = handle_step_owners [OF step Cons.prems(2) Cons.prems(4)]
  show ?case
  proof (cases "hs1 = []")
    case True
    with rest have "evs = []"
      by (cases evs) (simp_all add: handle_step_no_owner)
    with rest True inv Cons.prems(5) show ?thesis by simp
  next
    case False
    with inv have live1: "blocks w1 (block (m_context h0)) =
        Some \<lparr>use_count = length hs1, deleter = d\<rparr>"
      and same1: "\<forall>h \<in> set hs1. h = h0"
      and quiet: "filter is_close (calls w1) = filter is_close (calls w)"
      by simp_all
    from Cons.IH [OF rest same1 False live1 Cons.prems(5)] quiet
    show ?thesis by simp
  qed
qed

text \<open>
  C9. Take the handle that the constructor returns and any program over its copies:
  copies made from any live copy, copies destroyed in any order, device and port
  queries through any live copy. While a copy is alive the program has called
  \<^verbatim>\<open>ibv_close_device\<close> not at all; once the last copy is destroyed it has called it
  exactly once, on the context the handle held. So the one close is made by the
  destruction of the last owner, whichever that is, and by no query.
\<close>

theorem close_exactly_once:
  assumes "context_handle_ctor drv dev w0 = (Returns h, w1)"
    and "handle_run drv evs ([h], w1) = Some (hs, w)"
  shows "filter is_close (calls w) =
           filter is_close (calls w0) @
             (if hs = [] then [Ibv_close_device (context_get h)] else [])"
proof -
  from assms(1) have live: "blocks w1 (block (m_context h)) =
      Some \<lparr>use_count = length [h], deleter = Ibv_close_device (context_get h)\<rparr>"
    and start: "filter is_close (calls w1) = filter is_close (calls w0)"
    by (auto simp: context_handle_ctor_eq context_get_def)
  from handle_run_owners [OF assms(2) _ _ live] start
  show ?thesis by simp
qed

text \<open>
  Two programs on the two-adapter host: copy, query through the copy, destroy the
  original (one owner is left, nothing is closed); then destroy the copy as well.
\<close>

theorem close_exactly_once_witness:
  "(case handle_run two_adapters [Copy_handle 0, Query_attr 1, Destroy_handle 0]
           ([handle_110], snd (context_handle_ctor two_adapters 10 empty_world)) of
      None \<Rightarrow> False
    | Some (hs, w) \<Rightarrow> hs = [handle_110] \<and> filter is_close (calls w) = []) \<and>
   (case handle_run two_adapters [Copy_handle 0, Query_attr 1, Destroy_handle 0, Destroy_handle 0]
           ([handle_110], snd (context_handle_ctor two_adapters 10 empty_world)) of
      None \<Rightarrow> False
    | Some (hs, w) \<Rightarrow> hs = [] \<and> filter is_close (calls w) = [Ibv_close_device (Some 110)])"
proof -
  let ?w1 = "snd (context_handle_ctor two_adapters 10 empty_world)"
  have ctor: "context_handle_ctor two_adapters 10 empty_world = (Returns handle_110, ?w1)"
    by (simp add: context_handle_ctor_eq handle_110_def empty_world_def)
  have g: "context_get handle_110 = Some 110"
    by (simp add: context_get_def handle_110_def)
  have e: "filter is_close (calls empty_world) = []"
    by (simp add: empty_world_def)
  have "\<exists>w. handle_run two_adapters [Copy_handle 0, Query_attr 1, Destroy_handle 0]
           ([handle_110], ?w1) = Some ([handle_110], w)"
    by (simp add: context_handle_ctor_eq context_handle_copy_def shared_ptr_copy_def
        context_handle_dtor_def shared_ptr_destroy_def query_device_attr_def context_get_def
        log_call_def handle_110_def empty_world_def)
  then obtain wa where ra: "handle_run two_adapters [Copy_handle 0, Query_attr 1, Destroy_handle 0]
           ([handle_110], ?w1) = Some ([handle_110], wa)" ..
  have "\<exists>w. handle_run two_adapters [Copy_handle 0, Query_attr 1, Destroy_handle 0, Destroy_handle 0]
           ([handle_110], ?w1) = Some ([], w)"
    by (simp add: context_handle_ctor_eq context_handle_copy_def shared_ptr_copy_def
        context_handle_dtor_def shared_ptr_destroy_def query_device_attr_def context_get_def
        log_call_def handle_110_def empty_world_def)
  then obtain wb where rb: "handle_run two_adapters
           [Copy_handle 0, Query_attr 1, Destroy_handle 0, Destroy_handle 0]
           ([handle_110], ?w1) = Some ([], wb)" ..
  from close_exactly_once [OF ctor ra] close_exactly_once [OF ctor rb] ra rb g e
  show ?thesis by simp
qed

section \<open>Shared ownership of the device array\<close>

text \<open>One step of a program over the copies of the list \<open>d0\<close>.\<close>

lemma list_step_owners:
  assumes step: "list_step e (ds, w) = Some (ds', w')"
    and same: "\<forall>d \<in> set ds. d = d0"
    and live: "blocks w (block (m_device_list d0)) = Some \<lparr>use_count = length ds, deleter = c\<rparr>"
  shows "(\<forall>d \<in> set ds'. d = d0) \<and>
         (ds' \<noteq> [] \<longrightarrow>
            blocks w' (block (m_device_list d0)) = Some \<lparr>use_count = length ds', deleter = c\<rparr> \<and>
            calls w' = calls w) \<and>
         (ds' = [] \<longrightarrow> calls w' = calls w @ [c])"
proof (cases e)
  case (Copy_list i)
  with step have i: "i < length ds" by (simp split: if_splits)
  with same have di: "ds ! i = d0" by simp
  have eta: "\<lparr>m_size = m_size d0, m_device_list = m_device_list d0\<rparr> = d0" by (cases d0) simp
  from step Copy_list i di live same eta show ?thesis
    by (auto simp: scoped_device_list_copy_def shared_ptr_copy_live)
next
  case (Destroy_list i)
  with step have i: "i < length ds" by (simp split: if_splits)
  with same have di: "ds ! i = d0" by simp
  have sub: "\<forall>d \<in> set (take i ds @ drop (Suc i) ds). d = d0"
    using same by (auto dest: in_set_takeD in_set_dropD)
  have len: "length (take i ds @ drop (Suc i) ds) = length ds - 1"
    using i by simp
  show ?thesis
  proof (cases "length ds \<le> 1")
    case True
    with i have one: "length ds = 1" "i = 0" by simp_all
    then have "take i ds @ drop (Suc i) ds = []" by simp
    with step Destroy_list i di live True show ?thesis
      by (auto simp: scoped_device_list_dtor_def shared_ptr_destroy_last)
  next
    case False
    then have many: "1 < length ds" by simp
    then have ne: "take i ds @ drop (Suc i) ds \<noteq> []"
      using len by (metis length_0_conv zero_less_diff less_numeral_extra(3))
    from step Destroy_list i di live many sub ne len show ?thesis
      by (auto simp: scoped_device_list_dtor_def shared_ptr_destroy_shared)
  qed
qed

lemma list_step_no_owner: "list_step e ([], w) = None"
  by (cases e) simp_all

lemma list_run_owners:
  assumes "list_run evs (ds, w) = Some (ds', w')"
    and "\<forall>d \<in> set ds. d = d0"
    and "ds \<noteq> []"
    and "blocks w (block (m_device_list d0)) = Some \<lparr>use_count = length ds, deleter = c\<rparr>"
  shows "(\<forall>d \<in> set ds'. d = d0) \<and>
         calls w' = calls w @ (if ds' = [] then [c] else [])"
  using assms
proof (induction evs arbitrary: ds w)
  case Nil
  then show ?case by simp
next
  case (Cons e evs)
  from Cons.prems(1) obtain ds1 w1 where
    step: "list_step e (ds, w) = Some (ds1, w1)"
    and rest: "list_run evs (ds1, w1) = Some (ds', w')"
    by (auto split: option.splits)
  note inv = list_step_owners [OF step Cons.prems(2) Cons.prems(4)]
  show ?case
  proof (cases "ds1 = []")
    case True
    with rest have "evs = []"
      by (cases evs) (simp_all add: list_step_no_owner)
    with rest True inv show ?thesis by simp
  next
    case False
    with inv have live1: "blocks w1 (block (m_device_list d0)) =
        Some \<lparr>use_count = length ds1, deleter = c\<rparr>"
      and same1: "\<forall>d \<in> set ds1. d = d0"
      and quiet: "calls w1 = calls w"
      by simp_all
    from Cons.IH [OF rest same1 False live1] quiet
    show ?thesis by simp
  qed
qed

text \<open>
  C10. A \<open>scoped_device_list\<close> can be copied. Take the list that the constructor
  returns and any program that copies and destroys its copies in any order: every
  live copy holds the same shared pointer to the same array and shows the same size
  and the same entries, and \<^verbatim>\<open>ibv_free_device_list\<close> has been called not at all while
  a copy is alive and exactly once, on that array, once the last copy is destroyed.
\<close>

theorem free_exactly_once:
  assumes "scoped_device_list_ctor drv w0 = (Returns dl, w1)"
    and "list_run evs ([dl], w1) = Some (ds, w)"
  shows "(\<forall>d \<in> set ds. m_device_list d = m_device_list dl \<and>
            list_size d = list_size dl \<and> entries d = entries dl) \<and>
         filter is_free (calls w) =
           filter is_free (calls w0) @
             (if ds = [] then [Ibv_free_device_list (list_get dl)] else [])"
proof -
  from assms(1) have live: "blocks w1 (block (m_device_list dl)) =
      Some \<lparr>use_count = length [dl], deleter = Ibv_free_device_list (list_get dl)\<rparr>"
    and start: "calls w1 = calls w0 @ [Ibv_get_device_list]"
    by (auto simp: scoped_device_list_ctor_eq list_get_def)
  from list_run_owners [OF assms(2) _ _ live] start
  show ?thesis by auto
qed

text \<open>Copy the list of two and destroy the original; then destroy the copy too.\<close>

theorem free_exactly_once_witness:
  "(case list_run [Copy_list 0, Destroy_list 0]
           ([list_of_two], snd (scoped_device_list_ctor two_adapters empty_world)) of
      None \<Rightarrow> False
    | Some (ds, w) \<Rightarrow> ds = [list_of_two] \<and> filter is_free (calls w) = []) \<and>
   (case list_run [Copy_list 0, Destroy_list 0, Destroy_list 0]
           ([list_of_two], snd (scoped_device_list_ctor two_adapters empty_world)) of
      None \<Rightarrow> False
    | Some (ds, w) \<Rightarrow>
        ds = [] \<and> filter is_free (calls w) = [Ibv_free_device_list (Some [10, 11])])"
proof -
  let ?w1 = "snd (scoped_device_list_ctor two_adapters empty_world)"
  have ctor: "scoped_device_list_ctor two_adapters empty_world = (Returns list_of_two, ?w1)"
    by (simp add: scoped_device_list_ctor_eq list_of_two_def empty_world_def)
  have g: "list_get list_of_two = Some [10, 11]"
    by (simp add: list_get_def list_of_two_def)
  have e: "filter is_free (calls empty_world) = []"
    by (simp add: empty_world_def)
  have "\<exists>w. list_run [Copy_list 0, Destroy_list 0] ([list_of_two], ?w1) = Some ([list_of_two], w)"
    by (simp add: scoped_device_list_ctor_eq scoped_device_list_copy_def shared_ptr_copy_def
        scoped_device_list_dtor_def shared_ptr_destroy_def log_call_def list_of_two_def
        empty_world_def)
  then obtain wa where ra: "list_run [Copy_list 0, Destroy_list 0] ([list_of_two], ?w1) =
      Some ([list_of_two], wa)" ..
  have "\<exists>w. list_run [Copy_list 0, Destroy_list 0, Destroy_list 0] ([list_of_two], ?w1) =
      Some ([], w)"
    by (simp add: scoped_device_list_ctor_eq scoped_device_list_copy_def shared_ptr_copy_def
        scoped_device_list_dtor_def shared_ptr_destroy_def log_call_def list_of_two_def
        empty_world_def)
  then obtain wb where rb: "list_run [Copy_list 0, Destroy_list 0, Destroy_list 0]
      ([list_of_two], ?w1) = Some ([], wb)" ..
  from free_exactly_once [OF ctor ra] free_exactly_once [OF ctor rb] ra rb g e
  show ?thesis by simp
qed

end
